theory Spec2Isabelle
  imports Complex_Main "HOL-Library.List_Lexorder"
begin

section \<open>Data: strings, bytes, responses, connections\<close>

text \<open>
  A Python \<open>str\<close> is a list of Unicode code points, a \<open>bytes\<close> value a list of 8-bit
  characters. String literals of the source are written \<open>u ''...''\<close>. Lists of code
  points are ordered lexicographically, as Python orders \<open>str\<close> (used by \<open>sorted\<close>,
  \<open>min\<close> and \<open>max\<close>).
\<close>

type_synonym str = "nat list"
type_synonym bytes = string

definition u :: "string \<Rightarrow> str" where
  "u s = map of_char s"

definition slash :: nat where
  "slash = 47"

definition dot :: nat where
  "dot = 46"

text \<open>\<open>s.startswith(p)\<close> and \<open>s.endswith(p)\<close>.\<close>

definition startswith :: "str \<Rightarrow> str \<Rightarrow> bool" where
  "startswith s p = (take (length p) s = p)"

definition endswith :: "str \<Rightarrow> str \<Rightarrow> bool" where
  "endswith s p = (length p \<le> length s \<and> drop (length s - length p) s = p)"

text \<open>\<open>s.lstrip("/")\<close> and \<open>s.rstrip("/")\<close>.\<close>

definition lstrip_slash :: "str \<Rightarrow> str" where
  "lstrip_slash s = dropWhile (\<lambda>c. c = slash) s"

definition rstrip_slash :: "str \<Rightarrow> str" where
  "rstrip_slash s = rev (dropWhile (\<lambda>c. c = slash) (rev s))"

text \<open>\<open>s.split(sep)\<close> for a one-character separator: never empty, keeps empty fields.\<close>

fun split_on :: "nat \<Rightarrow> str \<Rightarrow> str list" where
  "split_on sep [] = [[]]"
| "split_on sep (c # cs) =
     (if c = sep then [] # split_on sep cs
      else (case split_on sep cs of
              [] \<Rightarrow> [[c]]
            | w # ws \<Rightarrow> (c # w) # ws))"

text \<open>\<open>sep.join(xs)\<close> for a one-character separator.\<close>

fun join_on :: "nat \<Rightarrow> str list \<Rightarrow> str" where
  "join_on sep [] = []"
| "join_on sep [x] = x"
| "join_on sep (x # y # ys) = x @ sep # join_on sep (y # ys)"

text \<open>\<open>s.rsplit("/", 1)[0]\<close>: what stands before the last slash, all of \<open>s\<close> without one.\<close>

definition rsplit1_head :: "str \<Rightarrow> str" where
  "rsplit1_head s =
     (if slash \<in> set s then rev (tl (dropWhile (\<lambda>c. c \<noteq> slash) (rev s))) else s)"

text \<open>
  The characters \<open>str.split()\<close> treats as whitespace (\<open>str.isspace\<close> on one code point).
\<close>

definition isspace :: "nat \<Rightarrow> bool" where
  "isspace c \<longleftrightarrow>
     (9 \<le> c \<and> c \<le> 13) \<or> (28 \<le> c \<and> c \<le> 32) \<or> c = 133 \<or> c = 160 \<or> c = 5760 \<or>
     (8192 \<le> c \<and> c \<le> 8202) \<or> c = 8232 \<or> c = 8233 \<or> c = 8239 \<or> c = 8287 \<or> c = 12288"

text \<open>
  \<open>s.split()\<close>: the maximal runs of non-whitespace characters, in order; \<open>cur\<close> is the
  run being read.
\<close>

fun split_ws_from :: "str \<Rightarrow> str \<Rightarrow> str list" where
  "split_ws_from cur [] = (if cur = [] then [] else [cur])"
| "split_ws_from cur (c # cs) =
     (if isspace c then (if cur = [] then split_ws_from [] cs else cur # split_ws_from [] cs)
      else split_ws_from (cur @ [c]) cs)"

definition split_ws :: "str \<Rightarrow> str list" where
  "split_ws s = split_ws_from [] s"

text \<open>\<open>data.split(b"\r\n", 1)[0]\<close>: the bytes before the first CR LF, all of them without one.\<close>

fun first_line :: "bytes \<Rightarrow> bytes" where
  "first_line (c # d # cs) =
     (if c = CHR 0x0D \<and> d = CHR 0x0A then [] else c # first_line (d # cs))"
| "first_line cs = cs"

text \<open>\<open>str(n)\<close> for a natural number: its decimal digits.\<close>

function str_of_nat :: "nat \<Rightarrow> str" where
  "str_of_nat n = (if n < 10 then [48 + n] else str_of_nat (n div 10) @ [48 + n mod 10])"
  by pat_completeness auto
termination
  by (relation "measure id") auto

declare str_of_nat.simps [simp del]

text \<open>A bytes literal of several lines: the lines joined by line feeds.\<close>

fun join_lines :: "bytes list \<Rightarrow> bytes" where
  "join_lines [] = []"
| "join_lines [x] = x"
| "join_lines (x # y # ys) = x @ CHR 0x0A # join_lines (y # ys)"

text \<open>
  A response as \<open>respond\<close> receives it: the status, the header dict in insertion order,
  the body. A connection records what was sent on it and whether it was closed.
\<close>

record response =
  status :: str
  headers :: "(str \<times> str) list"
  body :: bytes

record conn =
  sent :: "response list"
  closed :: bool

definition new_conn :: conn where
  "new_conn = \<lparr>sent = [], closed = False\<rparr>"

text \<open>
  The operating system and the library functions the server calls, as the handler sees
  them: the file system (\<open>os.path.realpath\<close>, \<open>isdir\<close>, \<open>isfile\<close>, \<open>os.listdir\<close> and
  \<open>open(...).read()\<close>, which the source guards against \<open>OSError\<close>: \<open>None\<close>, and
  \<open>os.path.getsize\<close>), \<open>mimetypes.guess_type\<close>, \<open>urllib.parse.unquote\<close> and \<open>quote\<close>,
  \<open>str.lower\<close>, \<open>bytes.decode(errors="replace")\<close> and \<open>str.encode\<close>. Calls the source
  leaves unguarded are taken to return.
\<close>

record pyenv =
  realpath :: "str \<Rightarrow> str"
  isdir :: "str \<Rightarrow> bool"
  isfile :: "str \<Rightarrow> bool"
  listdir :: "str \<Rightarrow> str list option"
  getsize :: "str \<Rightarrow> nat"
  read_file :: "str \<Rightarrow> bytes option"
  guess_type :: "str \<Rightarrow> str option"
  unquote :: "str \<Rightarrow> str"
  quote :: "str \<Rightarrow> str"
  lower :: "str \<Rightarrow> str"
  decode :: "bytes \<Rightarrow> str"
  encode :: "str \<Rightarrow> bytes"

section \<open>Configuration\<close>

definition ALLOWED_EXTENSIONS :: "str set" where
  "ALLOWED_EXTENSIONS = {u ''.html'', u ''.png'', u ''.jpg'', u ''.pdf''}"

definition VISIBLE_FILES :: "str set" where
  "VISIBLE_FILES = {u ''index.html'', u ''Syllabus PR FAF-23x -2.pdf''}"

definition VISIBLE_DIRS :: "str set" where
  "VISIBLE_DIRS = {u ''books'', u ''docs'', u ''mercedes'', u ''report_pics''}"

definition REQUESTS_PER_SECOND :: nat where
  "REQUESTS_PER_SECOND = 5"

definition TIME_WINDOW :: real where
  "TIME_WINDOW = 1"

section \<open>The response builder\<close>

text \<open>
  \<open>respond\<close> sends one response on the connection: the status line, one line per header,
  an empty line, the body. \<open>wire\<close> is the byte string \<open>sendall\<close> is given.
\<close>

definition crlf :: bytes where
  "crlf = [CHR 0x0D, CHR 0x0A]"

fun join_crlf :: "bytes list \<Rightarrow> bytes" where
  "join_crlf [] = []"
| "join_crlf [x] = x"
| "join_crlf (x # y # ys) = x @ crlf @ join_crlf (y # ys)"

definition wire :: "pyenv \<Rightarrow> response \<Rightarrow> bytes" where
  "wire E r =
     join_crlf ([encode E (u ''HTTP/1.1 '' @ status r)]
                @ map (\<lambda>(k, v). encode E (k @ u '': '' @ v)) (headers r)
                @ [[], []])
     @ body r"

definition respond :: "conn \<Rightarrow> str \<Rightarrow> (str \<times> str) list \<Rightarrow> bytes \<Rightarrow> conn" where
  "respond c st hs b = c\<lparr>sent := sent c @ [\<lparr>status = st, headers = hs, body = b\<rparr>]\<rparr>"

definition body_429 :: bytes where
  "body_429 = join_lines
     [''<!DOCTYPE html>'',
      ''    <html>'',
      ''    <head>'',
      ''        <title>429 Too Many Requests</title>'',
      ''    </head>'',
      ''    <body>'',
      ''        <h1>429 Too Many Requests</h1>'',
      ''        <p>Please slow down and try again later.</p>'',
      ''    </body>'',
      ''    </html>'']"

definition respond_429 :: "conn \<Rightarrow> conn" where
  "respond_429 c =
     respond c (u ''429 Too Many Requests'')
       [(u ''Content-Type'', u ''text/html; charset=utf-8''),
        (u ''Retry-After'', u ''1''),
        (u ''Content-Length'', str_of_nat (length body_429)),
        (u ''Connection'', u ''close'')]
       body_429"

definition respond_301 :: "pyenv \<Rightarrow> conn \<Rightarrow> str \<Rightarrow> conn" where
  "respond_301 E c location =
     (let b = encode E (u ''<html><body>Moved: <a href=\"'' @ location @ u ''\">'' @ location
                        @ u ''</a></body></html>'')
      in respond c (u ''301 Moved Permanently'')
           [(u ''Location'', location),
            (u ''Content-Type'', u ''text/html; charset=utf-8''),
            (u ''Content-Length'', str_of_nat (length b)),
            (u ''Connection'', u ''close'')]
           b)"

definition body_404 :: bytes where
  "body_404 = join_lines
     [''<!DOCTYPE html>'',
      ''    <html>'',
      ''    <head>'',
      ''        <title>404 Not Found</title>'',
      ''    </head>'',
      ''    <body>'',
      ''        <h1>404 Not Found</h1>'',
      ''        <p>The requested page does not exist.</p>'',
      ''        <a href=\"/\">Return to homepage</a>'',
      ''    </body>'',
      ''    </html>'']"

definition respond_404 :: "conn \<Rightarrow> conn" where
  "respond_404 c =
     respond c (u ''404 Not Found'')
       [(u ''Content-Type'', u ''text/html; charset=utf-8''),
        (u ''Content-Length'', str_of_nat (length body_404)),
        (u ''Connection'', u ''close'')]
       body_404"

section \<open>Paths\<close>

text \<open>
  \<open>os.path.join(a, b)\<close> and the extension \<open>os.path.splitext(p)[1]\<close> on POSIX: the
  extension starts at the last dot of the last component, unless only dots stand before it.
\<close>

definition path_join :: "str \<Rightarrow> str \<Rightarrow> str" where
  "path_join a b =
     (if startswith b [slash] then b
      else if a = [] \<or> endswith a [slash] then a @ b
      else a @ [slash] @ b)"

definition splitext_ext :: "str \<Rightarrow> str" where
  "splitext_ext p =
     (let base = last (split_on slash p) in
      if dot \<in> set base then
        (let stem = rev (tl (dropWhile (\<lambda>c. c \<noteq> dot) (rev base)));
             ext = dot # rev (takeWhile (\<lambda>c. c \<noteq> dot) (rev base))
         in if \<exists>c \<in> set stem. c \<noteq> dot then ext else [])
      else [])"

text \<open>
  \<open>os.path.commonpath([p, q])\<close> on POSIX: \<open>ValueError\<close> (\<open>None\<close>) when one path is
  absolute and the other is not; otherwise the components that are neither empty nor
  \<open>.\<close>, the smaller list compared with the larger up to the first difference, joined again.
  The smaller list is never longer than what it shares with the larger one, so the loop
  never reads past the end of the larger.
\<close>

definition path_parts :: "str \<Rightarrow> str list" where
  "path_parts p = [c \<leftarrow> split_on slash p. c \<noteq> [] \<and> c \<noteq> [dot]]"

fun common_prefix :: "str list \<Rightarrow> str list \<Rightarrow> str list" where
  "common_prefix (c # s1) (d # s2) = (if c = d then c # common_prefix s1 s2 else [])"
| "common_prefix s1 s2 = []"

definition commonpath :: "str \<Rightarrow> str \<Rightarrow> str option" where
  "commonpath p q =
     (if startswith p [slash] \<noteq> startswith q [slash] then None
      else (let a = path_parts p; b = path_parts q; s1 = min a b; s2 = max a b
            in Some ((if startswith p [slash] then [slash] else [])
                     @ join_on slash (common_prefix s1 s2))))"

definition is_subpath :: "pyenv \<Rightarrow> str \<Rightarrow> str \<Rightarrow> bool" where
  "is_subpath E child parent =
     (let child_real = realpath E child;
          parent_real = realpath E parent
      in case commonpath child_real parent_real of
           None \<Rightarrow> False
         | Some common \<Rightarrow> common = parent_real)"

section \<open>The rate limiter\<close>

text \<open>
  \<open>allow_request\<close> with the clock reading \<open>now\<close> and the dict \<open>client_requests\<close> passed
  in and returned: the entry of \<open>ip\<close> is created when missing, pruned to the timestamps
  less than \<open>TIME_WINDOW\<close> old, and extended by \<open>now\<close> when fewer than
  \<open>REQUESTS_PER_SECOND\<close> are left.
\<close>

definition allow_request ::
  "real \<Rightarrow> str \<Rightarrow> (str \<rightharpoonup> real list) \<Rightarrow> bool \<times> (str \<rightharpoonup> real list)" where
  "allow_request now ip cr =
     (let cr1 = (if cr ip = None then cr(ip \<mapsto> []) else cr);
          timestamps = (case cr1 ip of None \<Rightarrow> [] | Some ts \<Rightarrow> ts);
          kept = [t \<leftarrow> timestamps. now - t < TIME_WINDOW];
          cr2 = cr1(ip \<mapsto> kept)
      in if length kept < REQUESTS_PER_SECOND then (True, cr2(ip \<mapsto> kept @ [now]))
         else (False, cr2))"

section \<open>The hit counter\<close>

definition counts_get :: "(str \<rightharpoonup> nat) \<Rightarrow> str \<Rightarrow> nat" where
  "counts_get counts k = (case counts k of None \<Rightarrow> 0 | Some n \<Rightarrow> n)"

definition bump_count :: "str \<Rightarrow> (str \<rightharpoonup> nat) \<Rightarrow> (str \<rightharpoonup> nat)" where
  "bump_count path_key counts =
     (let current = counts_get counts path_key in counts(path_key \<mapsto> current + 1))"

section \<open>The directory listing\<close>

text \<open>
  \<open>file_size\<close>: the number \<open>n / d\<close> (\<open>d\<close> a power of 1024, so every division of the
  source is exact for sizes below \<open>2 ^ 53\<close>) printed with one decimal, rounded half to
  even, and its unit.
\<close>

definition format_1f :: "nat \<Rightarrow> nat \<Rightarrow> str" where
  "format_1f n d =
     (let q = (10 * n) div d;
          r = (10 * n) mod d;
          t = (if d < 2 * r \<or> (2 * r = d \<and> odd q) then q + 1 else q)
      in str_of_nat (t div 10) @ [dot] @ str_of_nat (t mod 10))"

fun file_size_from :: "nat \<Rightarrow> nat \<Rightarrow> str list \<Rightarrow> str" where
  "file_size_from n d [] = format_1f n d @ u '' TB''"
| "file_size_from n d (unit # units) =
     (if n < 1024 * d then format_1f n d @ u '' '' @ unit
      else file_size_from n (d * 1024) units)"

definition file_size :: "nat \<Rightarrow> str" where
  "file_size num_bytes = file_size_from num_bytes 1 [u ''B'', u ''KB'', u ''MB'', u ''GB'']"

text \<open>One table row of the listing (the body of the loop after the filter).\<close>

definition entry_row :: "pyenv \<Rightarrow> (str \<rightharpoonup> nat) \<Rightarrow> str \<Rightarrow> str \<Rightarrow> str \<Rightarrow> str" where
  "entry_row E counts req_path abs_dir name =
     (let full = path_join abs_dir name;
          is_directory = isdir E full;
          href = (if is_directory then quote E name @ u ''/'' else quote E name);
          size = (if is_directory then [8212] else file_size (getsize E full));
          child_req_path = req_path @ (if is_directory then name @ u ''/'' else name);
          hits = counts_get counts child_req_path
      in u ''<tr><td><a href=\"'' @ href @ u ''\">''
         @ (if \<not> isdir E full then name else name @ u ''/'') @ u ''</a></td>''
         @ u ''<td>'' @ size @ u ''</td><td>'' @ str_of_nat hits @ u ''</td></tr>'')"

text \<open>The loop over the entries: on the main page an entry outside the visible sets is skipped.\<close>

fun listing_rows :: "pyenv \<Rightarrow> (str \<rightharpoonup> nat) \<Rightarrow> str \<Rightarrow> str \<Rightarrow> str list \<Rightarrow> str list" where
  "listing_rows E counts req_path abs_dir [] = []"
| "listing_rows E counts req_path abs_dir (name # entries) =
     (let full = path_join abs_dir name;
          is_directory = isdir E full
      in if (req_path = u ''/'' \<or> req_path = u ''/public/'')
            \<and> (if is_directory then name \<notin> VISIBLE_DIRS else name \<notin> VISIBLE_FILES)
         then listing_rows E counts req_path abs_dir entries
         else entry_row E counts req_path abs_dir name
              # listing_rows E counts req_path abs_dir entries)"

definition parent_link :: "pyenv \<Rightarrow> str \<Rightarrow> str" where
  "parent_link E req_path =
     (let parent0 = rsplit1_head (rstrip_slash req_path);
          parent = (if parent0 = [] then u ''/'' else parent0 @ u ''/'')
      in u ''<a href=\"'' @ quote E parent @ u ''\">'' @ [11014] @ u '' Parent directory</a>'')"

definition minimal_listing_html :: "pyenv \<Rightarrow> (str \<rightharpoonup> nat) \<Rightarrow> str \<Rightarrow> str \<Rightarrow> bytes" where
  "minimal_listing_html E counts req_path abs_dir =
     (case listdir E abs_dir of
        None \<Rightarrow> ''<html><body><h1>Forbidden</h1></body></html>''
      | Some names \<Rightarrow>
          (let entries = sort names;
               lines = [u ''<!DOCTYPE html>'', u ''<html lang='' @ [39] @ u ''en'' @ [39] @ u ''>'',
                        u ''<head>'',
                        u ''<meta charset='' @ [39] @ u ''utf-8'' @ [39] @ u ''>'',
                        u ''<meta name='' @ [39] @ u ''viewport'' @ [39] @ u '' content='' @ [39]
                          @ u ''width=device-width, initial-scale=1'' @ [39] @ u ''>'',
                        u ''<title>Content of '' @ req_path @ u ''</title>'',
                        u ''</head>'', u ''<body>'',
                        u ''<h1>Filip</h1>'',
                        u ''<h2>Content of '' @ req_path @ u ''</h2>'',
                        u ''<main>'']
                       @ (if req_path \<noteq> u ''/'' then [parent_link E req_path] else [])
                       @ [u ''<table border='' @ [39] @ u ''1'' @ [39] @ u ''>'',
                          u ''<tr><th>Name</th><th>Size</th><th>Hits</th></tr>'']
                       @ listing_rows E counts req_path abs_dir entries
                       @ [u ''</table></main></body></html>'']
           in encode E (join_on 10 lines)))"

section \<open>The connection handler\<close>

record server_state =
  COUNTS :: "str \<rightharpoonup> nat"
  client_requests :: "str \<rightharpoonup> real list"

text \<open>
  The second half of \<open>_serve_connection\<close>: the target, normalised and counted, is
  mapped under \<open>public\<close>, guarded against traversal, and served as a directory or a file.
\<close>

definition serve_target :: "pyenv \<Rightarrow> str \<Rightarrow> str \<Rightarrow> (str \<rightharpoonup> nat) \<Rightarrow> conn \<Rightarrow> conn" where
  "serve_target E content_dir target counts c =
     (let public_root = path_join content_dir (u ''public'');
          requested_rel = lstrip_slash target;
          requested_abs = realpath E (path_join public_root requested_rel)
      in if \<not> is_subpath E requested_abs content_dir then respond_404 c
         else if isdir E requested_abs then
           (if \<not> endswith target (u ''/'') then respond_301 E c (target @ u ''/'')
            else (let b = minimal_listing_html E counts target requested_abs
                  in respond c (u ''200 OK'')
                       [(u ''Content-Type'', u ''text/html; charset=utf-8''),
                        (u ''Content-Length'', str_of_nat (length b)),
                        (u ''Connection'', u ''close'')]
                       b))
         else if \<not> isfile E requested_abs then respond_404 c
         else (let ext = lower E (splitext_ext requested_abs)
               in if ext \<notin> ALLOWED_EXTENSIONS then respond_404 c
                  else (case guess_type E requested_abs of
                          None \<Rightarrow> respond_404 c
                        | Some mime_type \<Rightarrow>
                            (case read_file E requested_abs of
                               Some b \<Rightarrow>
                                 respond c (u ''200 OK'')
                                   [(u ''Content-Type'', mime_type),
                                    (u ''Content-Length'', str_of_nat (length b)),
                                    (u ''Connection'', u ''close'')]
                                   b
                             | None \<Rightarrow>
                                 respond c (u ''500 Internal Server Error'')
                                   [(u ''Content-Type'', u ''text/plain''),
                                    (u ''Connection'', u ''close'')]
                                   ''Internal Server Error''))))"

text \<open>
  The first half: the rate check for the peer address at clock reading \<open>now\<close>, the one
  \<open>recv\<close> (its result is \<open>data\<close>), the request line, the method, the normalised target
  and its hit.
\<close>

definition handle_request ::
  "pyenv \<Rightarrow> real \<Rightarrow> bytes \<Rightarrow> str \<Rightarrow> str \<Rightarrow> conn \<Rightarrow> server_state \<Rightarrow> conn \<times> server_state" where
  "handle_request E now data client_ip content_dir c st =
     (let (allowed, cr) = allow_request now client_ip (client_requests st);
          st1 = st\<lparr>client_requests := cr\<rparr>
      in if \<not> allowed then (respond_429 c, st1)
         else if data = [] then (c, st1)
         else (let line = decode E (first_line data);
                   parts = split_ws line
               in if length parts \<noteq> 3 then
                    (respond c (u ''400 Bad Request'')
                       [(u ''Content-Type'', u ''text/plain''), (u ''Connection'', u ''close'')]
                       ''Bad Request'', st1)
                  else if parts ! 0 \<noteq> u ''GET'' then
                    (respond c (u ''405 Method Not Allowed'')
                       [(u ''Allow'', u ''GET''), (u ''Content-Type'', u ''text/plain''),
                        (u ''Connection'', u ''close'')]
                       ''Only GET is allowed'', st1)
                  else (let target0 = parts ! 1;
                            target = unquote E (if \<not> startswith target0 (u ''/'') then u ''/''
                                                else target0);
                            st2 = st1\<lparr>COUNTS := bump_count target (COUNTS st1)\<rparr>
                        in (serve_target E content_dir target (COUNTS st2) c, st2))))"

text \<open>\<open>_serve_connection\<close>: whatever the handler did, the connection is closed at the end.\<close>

definition serve_connection ::
  "pyenv \<Rightarrow> real \<Rightarrow> bytes \<Rightarrow> str \<Rightarrow> str \<Rightarrow> conn \<Rightarrow> server_state \<Rightarrow> conn \<times> server_state" where
  "serve_connection E now data client_ip content_dir c st =
     (let (c', st') = handle_request E now data client_ip content_dir c st
      in (c'\<lparr>closed := True\<rparr>, st'))"

section \<open>Vocabulary of the properties\<close>

text \<open>
  What a request is to the handler: whether the rate limiter admits it, the target of a
  well-formed GET request line (three tokens, the first \<open>GET\<close>) after normalisation, the
  path it resolves to, and the responses sent for it on a fresh connection.
\<close>

definition admitted :: "real \<Rightarrow> str \<Rightarrow> server_state \<Rightarrow> bool" where
  "admitted now ip st = fst (allow_request now ip (client_requests st))"

definition request_tokens :: "pyenv \<Rightarrow> bytes \<Rightarrow> str list" where
  "request_tokens E data = split_ws (decode E (first_line data))"

definition request_target :: "pyenv \<Rightarrow> bytes \<Rightarrow> str option" where
  "request_target E data =
     (let parts = request_tokens E data
      in if data \<noteq> [] \<and> length parts = 3 \<and> parts ! 0 = u ''GET''
         then Some (unquote E (if \<not> startswith (parts ! 1) (u ''/'') then u ''/'' else parts ! 1))
         else None)"

definition resolved :: "pyenv \<Rightarrow> str \<Rightarrow> str \<Rightarrow> str" where
  "resolved E content_dir target =
     realpath E (path_join (path_join content_dir (u ''public'')) (lstrip_slash target))"

definition reply :: "pyenv \<Rightarrow> real \<Rightarrow> bytes \<Rightarrow> str \<Rightarrow> str \<Rightarrow> server_state \<Rightarrow> response list" where
  "reply E now data ip content_dir st =
     sent (fst (serve_connection E now data ip content_dir new_conn st))"

definition counts_after :: "pyenv \<Rightarrow> real \<Rightarrow> bytes \<Rightarrow> str \<Rightarrow> str \<Rightarrow> server_state \<Rightarrow> (str \<rightharpoonup> nat)" where
  "counts_after E now data ip content_dir st =
     COUNTS (snd (serve_connection E now data ip content_dir new_conn st))"


text \<open>A path component as \<open>commonpath\<close> keeps it.\<close>

definition part_ok :: "str \<Rightarrow> bool" where
  "part_ok c \<longleftrightarrow> c \<noteq> [] \<and> c \<noteq> [dot] \<and> slash \<notin> set c"

definition lies_under :: "str \<Rightarrow> str \<Rightarrow> bool" where
  "lies_under p base \<longleftrightarrow> take (length (path_parts base)) (path_parts p) = path_parts base"


definition record_call ::
  "(real \<times> str) list \<times> (str \<rightharpoonup> real list) \<Rightarrow> real \<times> str
     \<Rightarrow> (real \<times> str) list \<times> (str \<rightharpoonup> real list)" where
  "record_call acc call =
     (let (now, ip) = call;
          (allowed, cr) = allow_request now ip (snd acc)
      in (if allowed then fst acc @ [(now, ip)] else fst acc, cr))"

definition run_calls :: "(real \<times> str) list \<Rightarrow> (real \<times> str) list \<times> (str \<rightharpoonup> real list)" where
  "run_calls calls = foldl record_call ([], Map.empty) calls"

section \<open>The hit counter under concurrent workers\<close>

text \<open>
  Workers that each run \<open>_bump_count\<close> once, interleaved statement by statement. A worker
  is at \<open>Start\<close> before \<open>with COUNTS_LOCK\<close>, \<open>Locked\<close> once it holds the lock,
  \<open>Loaded current\<close> after \<open>COUNTS.get\<close>, \<open>Slept current\<close> after the sleep, \<open>Stored\<close>
  after the assignment to \<open>COUNTS[path_key]\<close>, and \<open>Finished\<close> once it has released the
  lock. \<open>bump_step i\<close> lets worker \<open>i\<close> execute its next statement; a worker waiting for
  a taken lock, or finished, does nothing. An interleaving is the list of the workers'
  turns.
\<close>

datatype bump_pc = Start | Locked | Loaded nat | Slept nat | Stored | Finished

record shared =
  hits :: "str \<rightharpoonup> nat"
  lock_taken :: bool
  workers :: "(str \<times> bump_pc) list"

definition bump_step :: "nat \<Rightarrow> shared \<Rightarrow> shared" where
  "bump_step i s =
     (if i < length (workers s) then
        (case workers s ! i of
           (path_key, Start) \<Rightarrow>
             if lock_taken s then s
             else s\<lparr>lock_taken := True, workers := (workers s)[i := (path_key, Locked)]\<rparr>
         | (path_key, Locked) \<Rightarrow>
             s\<lparr>workers := (workers s)[i := (path_key, Loaded (counts_get (hits s) path_key))]\<rparr>
         | (path_key, Loaded current) \<Rightarrow>
             s\<lparr>workers := (workers s)[i := (path_key, Slept current)]\<rparr>
         | (path_key, Slept current) \<Rightarrow>
             s\<lparr>hits := (hits s)(path_key \<mapsto> current + 1),
               workers := (workers s)[i := (path_key, Stored)]\<rparr>
         | (path_key, Stored) \<Rightarrow>
             s\<lparr>lock_taken := False, workers := (workers s)[i := (path_key, Finished)]\<rparr>
         | (path_key, Finished) \<Rightarrow> s)
      else s)"

definition run_schedule :: "nat list \<Rightarrow> shared \<Rightarrow> shared" where
  "run_schedule sched s = foldl (\<lambda>s i. bump_step i s) s sched"

definition bump_start :: "(str \<rightharpoonup> nat) \<Rightarrow> str list \<Rightarrow> shared" where
  "bump_start c0 keys = \<lparr>hits = c0, lock_taken = False, workers = map (\<lambda>k. (k, Start)) keys\<rparr>"

text \<open>
  What the proofs need: who is inside the critical section, who has written, how many
  statements a worker has left, and the invariant of all reachable states: the workers
  keep their keys, the lock is taken exactly when a worker is inside, at most one is, a
  loaded value is the current count, and every count is its start value plus the number
  of workers of that key that have written.
\<close>

definition all_finished :: "shared \<Rightarrow> bool" where
  "all_finished s \<longleftrightarrow> (\<forall>w \<in> set (workers s). snd w = Finished)"

fun in_critical :: "bump_pc \<Rightarrow> bool" where
  "in_critical Start = False"
| "in_critical Finished = False"
| "in_critical pc = True"

fun has_stored :: "bump_pc \<Rightarrow> bool" where
  "has_stored Stored = True"
| "has_stored Finished = True"
| "has_stored pc = False"

fun steps_left :: "bump_pc \<Rightarrow> nat" where
  "steps_left Start = 5"
| "steps_left Locked = 4"
| "steps_left (Loaded c) = 3"
| "steps_left (Slept c) = 2"
| "steps_left Stored = 1"
| "steps_left Finished = 0"

definition bump_inv :: "(str \<rightharpoonup> nat) \<Rightarrow> str list \<Rightarrow> shared \<Rightarrow> bool" where
  "bump_inv c0 keys s \<longleftrightarrow>
     map fst (workers s) = keys
     \<and> (lock_taken s \<longleftrightarrow> (\<exists>i < length (workers s). in_critical (snd (workers s ! i))))
     \<and> (\<forall>i < length (workers s). \<forall>j < length (workers s).
          in_critical (snd (workers s ! i)) \<and> in_critical (snd (workers s ! j)) \<longrightarrow> i = j)
     \<and> (\<forall>i < length (workers s). \<forall>c.
          snd (workers s ! i) = Loaded c \<or> snd (workers s ! i) = Slept c
            \<longrightarrow> c = counts_get (hits s) (fst (workers s ! i)))
     \<and> (\<forall>k. counts_get (hits s) k
            = counts_get c0 k + length [w \<leftarrow> workers s. fst w = k \<and> has_stored (snd w)])"

definition work_left :: "shared \<Rightarrow> nat" where
  "work_left s = sum_list (map (\<lambda>w. steps_left (snd w)) (workers s))"

section \<open>A small file system to run the handler on\<close>

text \<open>
  A content root \<open>/srv/www\<close> without symbolic links, so that \<open>realpath\<close> only removes
  empty, \<open>.\<close> and \<open>..\<close> components; ASCII only, so that code points and bytes coincide.
\<close>

fun norm_parts :: "str list \<Rightarrow> str list \<Rightarrow> str list" where
  "norm_parts acc [] = rev acc"
| "norm_parts acc (c # cs) =
     (if c = [] \<or> c = [dot] then norm_parts acc cs
      else if c = [dot, dot] then norm_parts (tl acc) cs
      else norm_parts (c # acc) cs)"

definition demo_realpath :: "str \<Rightarrow> str" where
  "demo_realpath p = slash # join_on slash (norm_parts [] (split_on slash p))"

definition demo_dirs :: "(str \<times> str list) list" where
  "demo_dirs =
     [(u ''/srv/www'', [u ''secret.html'', u ''public'']),
      (u ''/srv/www/public'', [u ''notes.txt'', u ''index.html'', u ''docs'', u ''tmp'']),
      (u ''/srv/www/public/docs'', [u ''locked.pdf'', u ''a.pdf'']),
      (u ''/srv/www/public/tmp'', [])]"

definition demo_files :: "(str \<times> bytes option) list" where
  "demo_files =
     [(u ''/srv/www/secret.html'', Some ''<p>secret</p>''),
      (u ''/srv/www/public/index.html'', Some ''<h1>Hello</h1>''),
      (u ''/srv/www/public/notes.txt'', Some ''notes''),
      (u ''/srv/www/public/docs/a.pdf'', Some ''%PDF-1.4''),
      (u ''/srv/www/public/docs/locked.pdf'', None)]"

definition demo_types :: "(str \<times> str) list" where
  "demo_types =
     [(u ''.pdf'', u ''application/pdf''), (u ''.png'', u ''image/png''),
      (u ''.jpg'', u ''image/jpeg''), (u ''.html'', u ''text/html; charset=utf-8''),
      (u ''.txt'', u ''text/plain'')]"

definition ascii_lower :: "str \<Rightarrow> str" where
  "ascii_lower s = map (\<lambda>c. if 65 \<le> c \<and> c \<le> 90 then c + 32 else c) s"

definition hexval :: "nat \<Rightarrow> nat option" where
  "hexval c =
     (if 48 \<le> c \<and> c \<le> 57 then Some (c - 48)
      else if 65 \<le> c \<and> c \<le> 70 then Some (c - 55)
      else if 97 \<le> c \<and> c \<le> 102 then Some (c - 87)
      else None)"

fun ascii_unquote :: "str \<Rightarrow> str" where
  "ascii_unquote (c # h # l # cs) =
     (if c = 37 then
        (case (hexval h, hexval l) of
           (Some a, Some b) \<Rightarrow> (16 * a + b) # ascii_unquote cs
         | _ \<Rightarrow> c # ascii_unquote (h # l # cs))
      else c # ascii_unquote (h # l # cs))"
| "ascii_unquote cs = cs"

definition demo_env :: pyenv where
  "demo_env =
     \<lparr>realpath = demo_realpath,
      isdir = (\<lambda>p. map_of demo_dirs p \<noteq> None),
      isfile = (\<lambda>p. map_of demo_files p \<noteq> None),
      listdir = map_of demo_dirs,
      getsize = (\<lambda>p. case map_of demo_files p of Some (Some b) \<Rightarrow> length b | _ \<Rightarrow> 0),
      read_file = (\<lambda>p. case map_of demo_files p of Some r \<Rightarrow> r | None \<Rightarrow> None),
      guess_type = (\<lambda>p. map_of demo_types (ascii_lower (splitext_ext p))),
      unquote = ascii_unquote,
      quote = (\<lambda>s. s),
      lower = ascii_lower,
      decode = map of_char,
      encode = map char_of\<rparr>"

definition demo_root :: str where
  "demo_root = u ''/srv/www''"

definition demo_ip :: str where
  "demo_ip = u ''10.0.0.7''"

definition fresh_state :: server_state where
  "fresh_state = \<lparr>COUNTS = Map.empty, client_requests = Map.empty\<rparr>"

text \<open>Five calls of one client within half a second.\<close>

definition demo_burst :: "(real \<times> str) list" where
  "demo_burst = map (\<lambda>t. (t, demo_ip)) [0, 1 / 10, 2 / 10, 3 / 10, 4 / 10]"

text \<open>Two requests for the same path, the second trying for the lock while the first holds it.\<close>

definition demo_schedule :: "nat list" where
  "demo_schedule = [0, 1, 0, 1, 0, 0, 0, 1, 1, 1, 1, 1]"

section \<open>Properties\<close>

subsection \<open>The branches of the handler\<close>

lemmas demo_eval = u_def slash_def dot_def startswith_def endswith_def lstrip_slash_def
  rstrip_slash_def rsplit1_head_def isspace_def split_ws_def path_join_def splitext_ext_def
  path_parts_def commonpath_def is_subpath_def allow_request_def counts_get_def bump_count_def
  Let_def demo_realpath_def demo_dirs_def demo_files_def demo_types_def ascii_lower_def
  hexval_def demo_env_def demo_root_def demo_ip_def fresh_state_def REQUESTS_PER_SECOND_def
  TIME_WINDOW_def request_tokens_def request_target_def resolved_def admitted_def new_conn_def


lemma reply_no_data:
  "admitted now ip st \<Longrightarrow> reply E now [] ip content_dir st = []"
  by (simp add: reply_def serve_connection_def handle_request_def admitted_def Let_def
      new_conn_def split_beta)

lemma reply_bad_request:
  "admitted now ip st \<Longrightarrow> data \<noteq> [] \<Longrightarrow> length (request_tokens E data) \<noteq> 3 \<Longrightarrow>
   reply E now data ip content_dir st =
     [\<lparr>status = u ''400 Bad Request'',
       headers = [(u ''Content-Type'', u ''text/plain''), (u ''Connection'', u ''close'')],
       body = ''Bad Request''\<rparr>]"
  by (simp add: reply_def serve_connection_def handle_request_def admitted_def Let_def
      request_tokens_def respond_def new_conn_def split_beta)

lemma reply_not_get:
  "admitted now ip st \<Longrightarrow> data \<noteq> [] \<Longrightarrow> length (request_tokens E data) = 3 \<Longrightarrow>
   request_tokens E data ! 0 \<noteq> u ''GET'' \<Longrightarrow>
   reply E now data ip content_dir st =
     [\<lparr>status = u ''405 Method Not Allowed'',
       headers = [(u ''Allow'', u ''GET''), (u ''Content-Type'', u ''text/plain''),
                  (u ''Connection'', u ''close'')],
       body = ''Only GET is allowed''\<rparr>]"
  by (simp add: reply_def serve_connection_def handle_request_def admitted_def Let_def
      request_tokens_def respond_def new_conn_def split_beta)

lemma request_target_SomeD:
  "request_target E data = Some target \<Longrightarrow>
   data \<noteq> [] \<and> length (request_tokens E data) = 3 \<and> request_tokens E data ! 0 = u ''GET'' \<and>
   target = unquote E (if \<not> startswith (request_tokens E data ! 1) (u ''/'') then u ''/''
                       else request_tokens E data ! 1)"
  by (auto simp add: request_target_def Let_def split: if_splits)

lemma handle_request_get:
  assumes "admitted now ip st" and "request_target E data = Some target"
  shows "handle_request E now data ip content_dir c st =
     (serve_target E content_dir target (bump_count target (COUNTS st)) c,
      st\<lparr>client_requests := snd (allow_request now ip (client_requests st)),
         COUNTS := bump_count target (COUNTS st)\<rparr>)"
  using assms(1) request_target_SomeD[OF assms(2)]
  by (simp add: handle_request_def admitted_def Let_def request_tokens_def split_beta)

lemma reply_get:
  "admitted now ip st \<Longrightarrow> request_target E data = Some target \<Longrightarrow>
   reply E now data ip content_dir st =
     sent (serve_target E content_dir target (bump_count target (COUNTS st)) new_conn)"
  by (simp add: reply_def serve_connection_def handle_request_get)

subsection \<open>Malformed request lines and other methods\<close>

text \<open>
  Claim C6. An admitted request (one whose \<open>recv\<close> returned bytes) whose first line does
  not split into exactly three whitespace-separated tokens is answered 400 Bad Request;
  a request line of three tokens whose first is not \<open>GET\<close> is answered 405 Method Not
  Allowed with the header \<open>Allow: GET\<close>.
\<close>

theorem C6_malformed_400_other_methods_405:
  assumes "admitted now ip st" and "data \<noteq> []"
  shows "(length (request_tokens E data) \<noteq> 3 \<longrightarrow>
            reply E now data ip content_dir st =
              [\<lparr>status = u ''400 Bad Request'',
                headers = [(u ''Content-Type'', u ''text/plain''), (u ''Connection'', u ''close'')],
                body = ''Bad Request''\<rparr>])
       \<and> (length (request_tokens E data) = 3 \<and> request_tokens E data ! 0 \<noteq> u ''GET'' \<longrightarrow>
            reply E now data ip content_dir st =
              [\<lparr>status = u ''405 Method Not Allowed'',
                headers = [(u ''Allow'', u ''GET''), (u ''Content-Type'', u ''text/plain''),
                           (u ''Connection'', u ''close'')],
                body = ''Only GET is allowed''\<rparr>])"
  using assms reply_bad_request reply_not_get by blast

theorem C6_witness:
  "reply demo_env 0 ''GET /index.html'' demo_ip demo_root fresh_state =
     [\<lparr>status = u ''400 Bad Request'',
       headers = [(u ''Content-Type'', u ''text/plain''), (u ''Connection'', u ''close'')],
       body = ''Bad Request''\<rparr>]
   \<and> reply demo_env 0 ''DELETE /index.html HTTP/1.1'' demo_ip demo_root fresh_state =
     [\<lparr>status = u ''405 Method Not Allowed'',
       headers = [(u ''Allow'', u ''GET''), (u ''Content-Type'', u ''text/plain''),
                  (u ''Connection'', u ''close'')],
       body = ''Only GET is allowed''\<rparr>]"
proof -
  have a: "admitted 0 demo_ip fresh_state"
    by (simp add: demo_eval)
  have t1: "length (request_tokens demo_env ''GET /index.html'') \<noteq> 3"
    by (simp add: demo_eval)
  have t2: "length (request_tokens demo_env ''DELETE /index.html HTTP/1.1'') = 3
            \<and> request_tokens demo_env ''DELETE /index.html HTTP/1.1'' ! 0 \<noteq> u ''GET''"
    by (simp add: demo_eval)
  show ?thesis
    using C6_malformed_400_other_methods_405[OF a, of "''GET /index.html''" demo_env demo_root]
      C6_malformed_400_other_methods_405[OF a, of "''DELETE /index.html HTTP/1.1''" demo_env demo_root]
      t1 t2
    by simp
qed

subsection \<open>Paths and the guard\<close>

lemma common_prefix_sym: "common_prefix a b = common_prefix b a"
  by (induction a b rule: common_prefix.induct) auto

lemma common_prefix_min_max: "common_prefix (min a b) (max a b) = common_prefix a b"
  by (simp add: min_def max_def common_prefix_sym)

lemma common_prefix_self: "common_prefix a a = a"
  by (induction a) auto

lemma common_prefix_eq_right: "common_prefix a b = b \<Longrightarrow> take (length b) a = b"
  by (induction a b rule: common_prefix.induct) (auto split: if_splits)


lemma set_common_prefix: "set (common_prefix a b) \<subseteq> set b"
  by (induction a b rule: common_prefix.induct) auto

lemma split_on_not_Nil: "split_on sep s \<noteq> []"
  by (induction s) (auto split: list.splits)

lemma split_on_free: "w \<in> set (split_on sep s) \<Longrightarrow> sep \<notin> set w"
  by (induction s arbitrary: w) (auto split: if_splits list.splits)

lemma split_on_append_free:
  "sep \<notin> set x \<Longrightarrow> split_on sep (x @ sep # s) = x # split_on sep s"
  by (induction x) (auto split: list.splits)

lemma split_on_free_word: "sep \<notin> set x \<Longrightarrow> split_on sep x = [x]"
  by (induction x) (auto split: list.splits)

lemma split_on_join_on:
  "xs \<noteq> [] \<Longrightarrow> \<forall>x \<in> set xs. sep \<notin> set x \<Longrightarrow> split_on sep (join_on sep xs) = xs"
  by (induction sep xs rule: join_on.induct) (auto simp: split_on_append_free split_on_free_word)

lemma path_parts_ok: "c \<in> set (path_parts p) \<Longrightarrow> part_ok c"
  by (auto simp: path_parts_def part_ok_def dest: split_on_free)

lemma path_parts_join_on:
  assumes "\<forall>c \<in> set xs. part_ok c"
  shows "path_parts (join_on slash xs) = xs"
proof (cases "xs = []")
  case True
  then show ?thesis by (simp add: path_parts_def)
next
  case False
  with assms have "split_on slash (join_on slash xs) = xs"
    by (intro split_on_join_on) (auto simp: part_ok_def)
  with assms show ?thesis
    by (auto simp: path_parts_def part_ok_def intro!: filter_True)
qed

lemma path_parts_slash: "path_parts (slash # s) = path_parts s"
  by (simp add: path_parts_def)

lemma is_subpath_lies_under:
  assumes "is_subpath E child parent"
  shows "lies_under (realpath E child) (realpath E parent)"
proof -
  define cr where "cr = realpath E child"
  define pr where "pr = realpath E parent"
  define cp where "cp = common_prefix (path_parts cr) (path_parts pr)"
  have ok: "\<forall>c \<in> set cp. part_ok c"
    using set_common_prefix[of "path_parts cr" "path_parts pr"] path_parts_ok
    unfolding cp_def by blast
  from assms have "pr = (if startswith cr [slash] then [slash] else []) @ join_on slash cp"
    by (auto simp: is_subpath_def commonpath_def Let_def common_prefix_min_max cr_def pr_def cp_def
        split: if_splits option.splits)
  then have "path_parts pr = cp"
    using ok by (auto simp: path_parts_slash path_parts_join_on split: if_splits)
  then have "common_prefix (path_parts cr) (path_parts pr) = path_parts pr"
    by (simp add: cp_def)
  then show ?thesis
    unfolding lies_under_def cr_def[symmetric] pr_def[symmetric]
    by (rule common_prefix_eq_right)
qed



lemma serve_target_escape:
  "\<not> is_subpath E (resolved E content_dir target) content_dir \<Longrightarrow>
   serve_target E content_dir target counts c = respond_404 c"
  by (simp add: serve_target_def resolved_def Let_def)



lemma serve_target_bad_ext:
  "\<not> isdir E (resolved E content_dir target) \<Longrightarrow>
   lower E (splitext_ext (resolved E content_dir target)) \<notin> ALLOWED_EXTENSIONS \<Longrightarrow>
   serve_target E content_dir target counts c = respond_404 c"
  by (simp add: serve_target_def resolved_def Let_def)

lemma status_respond_404: "map status (sent (respond_404 new_conn)) = [u ''404 Not Found'']"
  by (simp add: respond_404_def respond_def new_conn_def)

lemma status_neq_404: "u ''404 Not Found'' \<noteq> u ''200 OK''"
  "u ''404 Not Found'' \<noteq> u ''500 Internal Server Error''"
  by (simp_all add: u_def)

subsection \<open>The traversal guard\<close>

text \<open>
  Claim C1. An admitted GET request whose target, percent-decoded, joined under the public
  root and canonicalised, does not lie under the canonical content root (the guard
  canonicalises both paths once more) is answered with the 404 page and nothing else: no
  response with status 200 or 500 is sent.
\<close>

theorem C1_escaping_target_404:
  assumes "admitted now ip st" and "request_target E data = Some target"
    and "\<not> lies_under (realpath E (resolved E content_dir target)) (realpath E content_dir)"
  shows "reply E now data ip content_dir st = sent (respond_404 new_conn)
       \<and> map status (reply E now data ip content_dir st) = [u ''404 Not Found'']
       \<and> u ''200 OK'' \<notin> set (map status (reply E now data ip content_dir st))
       \<and> u ''500 Internal Server Error'' \<notin> set (map status (reply E now data ip content_dir st))"
proof -
  have "\<not> is_subpath E (resolved E content_dir target) content_dir"
    using assms(3) is_subpath_lies_under by blast
  then have "reply E now data ip content_dir st = sent (respond_404 new_conn)"
    using assms(1,2) by (simp add: reply_get serve_target_escape)
  then show ?thesis
    using status_neq_404 by (simp add: status_respond_404)
qed

theorem C1_witness:
  "request_target demo_env ''GET /%2e%2e/%2e%2e/etc/passwd HTTP/1.1'' = Some (u ''/../../etc/passwd'')
   \<and> resolved demo_env demo_root (u ''/../../etc/passwd'') = u ''/srv/etc/passwd''
   \<and> map status (reply demo_env 0 ''GET /%2e%2e/%2e%2e/etc/passwd HTTP/1.1'' demo_ip demo_root
                  fresh_state) = [u ''404 Not Found'']"
proof -
  have a: "admitted 0 demo_ip fresh_state"
    by (simp add: demo_eval)
  have t: "request_target demo_env ''GET /%2e%2e/%2e%2e/etc/passwd HTTP/1.1''
           = Some (u ''/../../etc/passwd'')"
    by (simp add: demo_eval)
  have r: "resolved demo_env demo_root (u ''/../../etc/passwd'') = u ''/srv/etc/passwd''"
    by (simp add: demo_eval)
  have n: "\<not> lies_under (realpath demo_env (resolved demo_env demo_root (u ''/../../etc/passwd'')))
               (realpath demo_env demo_root)"
    unfolding r by (simp add: lies_under_def demo_eval)
  show ?thesis
    using C1_escaping_target_404[OF a t n] t r by blast
qed

subsection \<open>The extension allowlist\<close>

text \<open>
  Claim C7. An admitted GET request whose target resolves to an existing regular file (so
  not a directory) whose lowercased extension is outside \<open>ALLOWED_EXTENSIONS\<close> is answered
  404, whether or not the file can be read.
\<close>

theorem C7_disallowed_extension_404:
  assumes "admitted now ip st" and "request_target E data = Some target"
    and "isfile E (resolved E content_dir target)"
    and "\<not> isdir E (resolved E content_dir target)"
    and "lower E (splitext_ext (resolved E content_dir target)) \<notin> ALLOWED_EXTENSIONS"
  shows "reply E now data ip content_dir st = sent (respond_404 new_conn)
       \<and> map status (reply E now data ip content_dir st) = [u ''404 Not Found'']"
  using assms by (simp add: reply_get serve_target_bad_ext status_respond_404)

theorem C7_witness:
  "read_file demo_env (resolved demo_env demo_root (u ''/notes.txt'')) = Some ''notes''
   \<and> is_subpath demo_env (resolved demo_env demo_root (u ''/notes.txt'')) demo_root
   \<and> map status (reply demo_env 0 ''GET /notes.txt HTTP/1.1'' demo_ip demo_root fresh_state)
       = [u ''404 Not Found'']"
proof -
  have a: "admitted 0 demo_ip fresh_state"
    by (simp add: demo_eval)
  have t: "request_target demo_env ''GET /notes.txt HTTP/1.1'' = Some (u ''/notes.txt'')"
    by (simp add: demo_eval)
  have r: "resolved demo_env demo_root (u ''/notes.txt'') = u ''/srv/www/public/notes.txt''"
    by (simp add: demo_eval)
  have f: "isfile demo_env (resolved demo_env demo_root (u ''/notes.txt''))"
    and d: "\<not> isdir demo_env (resolved demo_env demo_root (u ''/notes.txt''))"
    and e: "lower demo_env (splitext_ext (resolved demo_env demo_root (u ''/notes.txt'')))
            \<notin> ALLOWED_EXTENSIONS"
    and rd: "read_file demo_env (resolved demo_env demo_root (u ''/notes.txt'')) = Some ''notes''"
    and s: "is_subpath demo_env (resolved demo_env demo_root (u ''/notes.txt'')) demo_root"
    unfolding r by (simp_all add: demo_eval ALLOWED_EXTENSIONS_def)
  show ?thesis
    using C7_disallowed_extension_404[OF a t f d e] rd s by blast
qed

lemma serve_target_file:
  "is_subpath E (resolved E content_dir target) content_dir \<Longrightarrow>
   \<not> isdir E (resolved E content_dir target) \<Longrightarrow> isfile E (resolved E content_dir target) \<Longrightarrow>
   lower E (splitext_ext (resolved E content_dir target)) \<in> ALLOWED_EXTENSIONS \<Longrightarrow>
   guess_type E (resolved E content_dir target) = Some mime_type \<Longrightarrow>
   serve_target E content_dir target counts c =
     (case read_file E (resolved E content_dir target) of
        Some b \<Rightarrow>
          respond c (u ''200 OK'')
            [(u ''Content-Type'', mime_type), (u ''Content-Length'', str_of_nat (length b)),
             (u ''Connection'', u ''close'')] b
      | None \<Rightarrow>
          respond c (u ''500 Internal Server Error'')
            [(u ''Content-Type'', u ''text/plain''), (u ''Connection'', u ''close'')]
            ''Internal Server Error'')"
  by (simp add: serve_target_def resolved_def Let_def)

lemma sent_respond_new: "sent (respond new_conn s hs b) = [\<lparr>status = s, headers = hs, body = b\<rparr>]"
  by (simp add: respond_def new_conn_def)

lemma sent_respond_301:
  "map status (sent (respond_301 E new_conn location)) = [u ''301 Moved Permanently'']"
  "map (\<lambda>r. map_of (headers r) (u ''Location'')) (sent (respond_301 E new_conn location))
     = [Some location]"
  by (simp_all add: respond_301_def sent_respond_new Let_def)


subsection \<open>Directories\<close>




subsection \<open>The content root itself\<close>




subsection \<open>The hit counter in the handler\<close>

lemma counts_after_get:
  "admitted now ip st \<Longrightarrow> request_target E data = Some target \<Longrightarrow>
   counts_after E now data ip content_dir st = bump_count target (COUNTS st)"
  by (simp add: counts_after_def serve_connection_def handle_request_get)

lemma request_target_None_iff:
  "request_target E data = None \<longleftrightarrow>
     data = [] \<or> length (request_tokens E data) \<noteq> 3 \<or> request_tokens E data ! 0 \<noteq> u ''GET''"
  by (auto simp: request_target_def Let_def)

lemma counts_after_other:
  "\<not> admitted now ip st \<or> request_target E data = None \<Longrightarrow>
   counts_after E now data ip content_dir st = COUNTS st"
  by (auto simp: counts_after_def serve_connection_def handle_request_def admitted_def Let_def
      split_beta request_target_None_iff request_tokens_def)

text \<open>
  Claim C4. The counter after a connection is the counter before it with the count of the
  normalised target (percent-decoded; \<open>/\<close> when the raw target does not start with a
  slash) raised by one, when the request is admitted and is a GET request line of three
  tokens; it is unchanged for a rate-rejected, empty, malformed or non-GET request. The
  increment comes before path resolution: whatever is answered (404 and 301 included) is
  computed from the counter already incremented.
\<close>

theorem C4_hit_counted_once_before_resolution:
  "counts_after E now data ip content_dir st =
     (case request_target E data of
        Some target \<Rightarrow>
          if admitted now ip st
          then (COUNTS st)(target \<mapsto> counts_get (COUNTS st) target + 1)
          else COUNTS st
      | None \<Rightarrow> COUNTS st)
   \<and> (admitted now ip st \<and> request_target E data = Some target \<longrightarrow>
        reply E now data ip content_dir st =
          sent (serve_target E content_dir target
                  (counts_after E now data ip content_dir st) new_conn))"
proof (intro conjI impI)
  show "counts_after E now data ip content_dir st =
     (case request_target E data of
        Some target \<Rightarrow>
          if admitted now ip st
          then (COUNTS st)(target \<mapsto> counts_get (COUNTS st) target + 1)
          else COUNTS st
      | None \<Rightarrow> COUNTS st)"
  proof (cases "request_target E data")
    case None
    then show ?thesis by (simp add: counts_after_other)
  next
    case (Some t)
    then show ?thesis
      by (cases "admitted now ip st")
        (simp_all add: counts_after_get counts_after_other bump_count_def Let_def)
  qed
next
  assume "admitted now ip st \<and> request_target E data = Some target"
  then show "reply E now data ip content_dir st =
          sent (serve_target E content_dir target
                  (counts_after E now data ip content_dir st) new_conn)"
    by (simp add: reply_get counts_after_get)
qed

theorem C4_witness:
  "map status (reply demo_env 0 ''GET /missing HTTP/1.1'' demo_ip demo_root fresh_state)
     = [u ''404 Not Found'']
   \<and> counts_after demo_env 0 ''GET /missing HTTP/1.1'' demo_ip demo_root fresh_state
     = [u ''/missing'' \<mapsto> 1]
   \<and> map status (reply demo_env 0 ''GET /do%63s HTTP/1.1'' demo_ip demo_root fresh_state)
     = [u ''301 Moved Permanently'']
   \<and> counts_after demo_env 0 ''GET /do%63s HTTP/1.1'' demo_ip demo_root fresh_state
     = [u ''/docs'' \<mapsto> 1]
   \<and> counts_after demo_env 0 ''GET index.html HTTP/1.1'' demo_ip demo_root fresh_state
     = [u ''/'' \<mapsto> 1]
   \<and> counts_after demo_env 0 ''POST /docs HTTP/1.1'' demo_ip demo_root fresh_state = Map.empty
   \<and> counts_after demo_env 0 ''GET /docs'' demo_ip demo_root fresh_state = Map.empty"
proof -
  have a: "admitted 0 demo_ip fresh_state"
    by (simp add: demo_eval)
  have t: "request_target demo_env ''GET /missing HTTP/1.1'' = Some (u ''/missing'')"
    "request_target demo_env ''GET /do%63s HTTP/1.1'' = Some (u ''/docs'')"
    "request_target demo_env ''GET index.html HTTP/1.1'' = Some (u ''/'')"
    "request_target demo_env ''POST /docs HTTP/1.1'' = None"
    "request_target demo_env ''GET /docs'' = None"
    by (simp_all add: demo_eval)
  have c: "COUNTS fresh_state = Map.empty"
    by (simp add: fresh_state_def)
  have r: "resolved demo_env demo_root (u ''/missing'') = u ''/srv/www/public/missing''"
    "resolved demo_env demo_root (u ''/docs'') = u ''/srv/www/public/docs''"
    by (simp_all add: demo_eval)
  have s1: "sent (serve_target demo_env demo_root (u ''/missing'') counts new_conn)
      = sent (respond_404 new_conn)" for counts
    by (simp add: serve_target_def Let_def r[unfolded resolved_def] demo_eval)
  have s2: "sent (serve_target demo_env demo_root (u ''/docs'') counts new_conn)
      = sent (respond_301 demo_env new_conn (u ''/docs'' @ u ''/''))" for counts
    by (simp add: serve_target_def Let_def r[unfolded resolved_def] demo_eval)
  show ?thesis
    using C4_hit_counted_once_before_resolution[of demo_env 0 "''GET /missing HTTP/1.1''"
        demo_ip demo_root fresh_state "u ''/missing''"]
      C4_hit_counted_once_before_resolution[of demo_env 0 "''GET /do%63s HTTP/1.1''"
        demo_ip demo_root fresh_state "u ''/docs''"]
      C4_hit_counted_once_before_resolution[of demo_env 0 "''GET index.html HTTP/1.1''"
        demo_ip demo_root fresh_state "u ''/''"]
      C4_hit_counted_once_before_resolution[of demo_env 0 "''POST /docs HTTP/1.1''"
        demo_ip demo_root fresh_state "u ''/''"]
      C4_hit_counted_once_before_resolution[of demo_env 0 "''GET /docs''"
        demo_ip demo_root fresh_state "u ''/''"]
    by (simp add: a t c s1 s2 counts_get_def status_respond_404 sent_respond_301)
qed

subsection \<open>The rows of a listing\<close>




subsection \<open>Headers of the error responses\<close>

text \<open>
  Claim C2 fails on the code: the 400, 405 and 500 responses are built without a
  \<open>Content-Length\<close> header, which the 200, 301, 404 and 429 responses carry. Here the
  handler is run on a two-token request line, on a DELETE request and on a file whose
  read fails, and, for comparison, on a readable file.
\<close>

theorem C2_error_replies_lack_content_length:
  "map (\<lambda>r. (status r, map_of (headers r) (u ''Content-Length'')))
     (reply demo_env 0 ''GET /index.html'' demo_ip demo_root fresh_state)
     = [(u ''400 Bad Request'', None)]
   \<and> map (\<lambda>r. (status r, map_of (headers r) (u ''Content-Length'')))
       (reply demo_env 0 ''DELETE /index.html HTTP/1.1'' demo_ip demo_root fresh_state)
     = [(u ''405 Method Not Allowed'', None)]
   \<and> map (\<lambda>r. (status r, map_of (headers r) (u ''Content-Length'')))
       (reply demo_env 0 ''GET /docs/locked.pdf HTTP/1.1'' demo_ip demo_root fresh_state)
     = [(u ''500 Internal Server Error'', None)]
   \<and> map (\<lambda>r. (status r, map_of (headers r) (u ''Content-Length'')))
       (reply demo_env 0 ''GET /docs/a.pdf HTTP/1.1'' demo_ip demo_root fresh_state)
     = [(u ''200 OK'', Some (u ''8''))]"
proof -
  have a: "admitted 0 demo_ip fresh_state"
    by (simp add: demo_eval)
  have k: "u ''Content-Length'' \<noteq> u ''Content-Type''" "u ''Content-Length'' \<noteq> u ''Connection''"
    "u ''Content-Length'' \<noteq> u ''Allow''"
    by (simp_all add: u_def)
  have t1: "length (request_tokens demo_env ''GET /index.html'') \<noteq> 3"
    and t2: "length (request_tokens demo_env ''DELETE /index.html HTTP/1.1'') = 3"
      "request_tokens demo_env ''DELETE /index.html HTTP/1.1'' ! 0 \<noteq> u ''GET''"
    and t3: "request_target demo_env ''GET /docs/locked.pdf HTTP/1.1''
        = Some (u ''/docs/locked.pdf'')"
    and t4: "request_target demo_env ''GET /docs/a.pdf HTTP/1.1'' = Some (u ''/docs/a.pdf'')"
    by (simp_all add: demo_eval)
  have r3: "resolved demo_env demo_root (u ''/docs/locked.pdf'')
        = u ''/srv/www/public/docs/locked.pdf''"
    and r4: "resolved demo_env demo_root (u ''/docs/a.pdf'') = u ''/srv/www/public/docs/a.pdf''"
    by (simp_all add: demo_eval)
  have s3: "serve_target demo_env demo_root (u ''/docs/locked.pdf'') counts new_conn =
      respond new_conn (u ''500 Internal Server Error'')
        [(u ''Content-Type'', u ''text/plain''), (u ''Connection'', u ''close'')]
        ''Internal Server Error''" for counts
    by (subst serve_target_file[where mime_type = "u ''application/pdf''"])
      (simp_all add: r3 demo_eval ALLOWED_EXTENSIONS_def)
  have s4': "serve_target demo_env demo_root (u ''/docs/a.pdf'') counts new_conn =
      respond new_conn (u ''200 OK'')
        [(u ''Content-Type'', u ''application/pdf''),
         (u ''Content-Length'', str_of_nat (length ''%PDF-1.4'')),
         (u ''Connection'', u ''close'')]
        ''%PDF-1.4''" for counts
    by (subst serve_target_file[where mime_type = "u ''application/pdf''"])
      (simp_all add: r4 demo_eval ALLOWED_EXTENSIONS_def)
  have n: "str_of_nat (length ''%PDF-1.4'') = u ''8''"
    by (simp add: str_of_nat.simps u_def)
  have s4: "serve_target demo_env demo_root (u ''/docs/a.pdf'') counts new_conn =
      respond new_conn (u ''200 OK'')
        [(u ''Content-Type'', u ''application/pdf''), (u ''Content-Length'', u ''8''),
         (u ''Connection'', u ''close'')]
        ''%PDF-1.4''" for counts
    using s4'[of counts] unfolding n .
  show ?thesis
    using a t1 t2 t3 t4
    by (simp add: reply_bad_request reply_not_get reply_get s3 s4 sent_respond_new k)
qed

subsection \<open>The rate limiter over a run of calls\<close>



















text \<open>
  The order of the readings matters: \<open>allow_request\<close> reads the clock before it takes the
  lock, and a call that enters with an older reading than its predecessor finds the list
  already pruned. After the five calls of the burst, a call read at 1.5 and then one read
  at 0.5 are both admitted: six admissions with readings in \<open>[0, 1)\<close>.
\<close>

lemma window_bound_needs_ordered_readings:
  "length [c \<leftarrow> fst (run_calls (demo_burst @ [(3 / 2, demo_ip), (1 / 2, demo_ip)])).
             snd c = demo_ip \<and> 0 \<le> fst c \<and> fst c < 0 + TIME_WINDOW] = 6"
  by (simp add: run_calls_def record_call_def demo_burst_def allow_request_def Let_def
      TIME_WINDOW_def REQUESTS_PER_SECOND_def)

subsection \<open>Interleaved increments\<close>

lemma length_filter_update:
  "i < length xs \<Longrightarrow>
   length (filter P (xs[i := y])) + (if P (xs ! i) then 1 else 0)
     = length (filter P xs) + (if P y then 1 else 0)"
proof (induction xs arbitrary: i)
  case Nil
  then show ?case by simp
next
  case (Cons x xs)
  then show ?case by (cases i) auto
qed

lemma bump_inv_start: "bump_inv c0 keys (bump_start c0 keys)"
  by (simp add: bump_inv_def bump_start_def comp_def)

lemma map_fst_update: "i < length xs \<Longrightarrow> fst (xs ! i) = k \<Longrightarrow> map fst (xs[i := (k, pc)]) = map fst xs"
  by (simp add: map_update list_update_same_conv)

lemma inv_keys:
  assumes "map fst ws = keys" and "i < length ws" and "ws ! i = (k, pc)"
  shows "map fst (ws[i := (k, pc')]) = keys"
  using assms by (simp add: map_fst_update)

lemma stored_count_same:
  assumes "i < length ws" and "ws ! i = (k, pc)" and "has_stored pc' = has_stored pc"
  shows "length [w \<leftarrow> ws[i := (k, pc')]. fst w = k' \<and> has_stored (snd w)]
       = length [w \<leftarrow> ws. fst w = k' \<and> has_stored (snd w)]"
  using length_filter_update[OF assms(1), of "\<lambda>w. fst w = k' \<and> has_stored (snd w)" "(k, pc')"]
    assms(2,3)
  by (simp split: if_splits)

lemma stored_count_new:
  assumes "i < length ws" and "ws ! i = (k, pc)" and "\<not> has_stored pc" and "has_stored pc'"
  shows "length [w \<leftarrow> ws[i := (k, pc')]. fst w = k' \<and> has_stored (snd w)]
       = length [w \<leftarrow> ws. fst w = k' \<and> has_stored (snd w)] + (if k' = k then 1 else 0)"
  using length_filter_update[OF assms(1), of "\<lambda>w. fst w = k' \<and> has_stored (snd w)" "(k, pc')"]
    assms(2,3,4)
  by (simp split: if_splits)

lemma inv_inner_step:
  assumes inv: "bump_inv c0 keys s" and i: "i < length (workers s)"
    and at: "workers s ! i = (k, pc)"
    and crit: "in_critical pc" "in_critical pc'"
    and st: "has_stored pc' = has_stored pc"
    and ld: "\<And>c. pc' = Loaded c \<or> pc' = Slept c \<Longrightarrow> c = counts_get (hits s) k"
  shows "bump_inv c0 keys (s\<lparr>workers := (workers s)[i := (k, pc')]\<rparr>)"
  unfolding bump_inv_def
proof (intro conjI allI impI)
  let ?ws = "workers s" and ?s' = "s\<lparr>workers := (workers s)[i := (k, pc')]\<rparr>"
  show "map fst (workers ?s') = keys"
    using inv i at by (simp add: bump_inv_def map_fst_update)
  have lk: "lock_taken s"
    using inv i at crit(1) by (auto simp: bump_inv_def)
  show "lock_taken ?s' \<longleftrightarrow> (\<exists>j < length (workers ?s'). in_critical (snd (workers ?s' ! j)))"
    using lk i crit(2) by (auto intro!: exI[of _ i])
  show "j = j'" if "j < length (workers ?s')" "j' < length (workers ?s')"
    "in_critical (snd (workers ?s' ! j)) \<and> in_critical (snd (workers ?s' ! j'))" for j j'
  proof -
    have "in_critical (snd (?ws ! j))" "in_critical (snd (?ws ! j'))"
      using that at crit(1) i by (auto simp: nth_list_update split: if_splits)
    then show ?thesis
      using inv that(1,2) by (auto simp: bump_inv_def)
  qed
  show "c = counts_get (hits ?s') (fst (workers ?s' ! j))"
    if "j < length (workers ?s')"
      "snd (workers ?s' ! j) = Loaded c \<or> snd (workers ?s' ! j) = Slept c" for j c
  proof (cases "j = i")
    case True
    then show ?thesis using that i ld by auto
  next
    case False
    then show ?thesis using that inv by (auto simp: bump_inv_def)
  qed
  show "counts_get (hits ?s') k' = counts_get c0 k'
      + length [w \<leftarrow> workers ?s'. fst w = k' \<and> has_stored (snd w)]" for k'
    using inv stored_count_same[OF i at st, of k'] by (simp add: bump_inv_def)
qed

lemma inv_acquire:
  assumes inv: "bump_inv c0 keys s" and i: "i < length (workers s)"
    and at: "workers s ! i = (k, Start)" and free: "\<not> lock_taken s"
  shows "bump_inv c0 keys (s\<lparr>lock_taken := True, workers := (workers s)[i := (k, Locked)]\<rparr>)"
  unfolding bump_inv_def
proof (intro conjI allI impI)
  let ?ws = "workers s"
  let ?s' = "s\<lparr>lock_taken := True, workers := (workers s)[i := (k, Locked)]\<rparr>"
  have none: "\<And>j. j < length ?ws \<Longrightarrow> \<not> in_critical (snd (?ws ! j))"
    using inv free by (auto simp: bump_inv_def)
  show "map fst (workers ?s') = keys"
    using inv i at by (simp add: bump_inv_def map_fst_update)
  show "lock_taken ?s' \<longleftrightarrow> (\<exists>j < length (workers ?s'). in_critical (snd (workers ?s' ! j)))"
    using i by (auto intro!: exI[of _ i])
  show "j = j'" if "j < length (workers ?s')" "j' < length (workers ?s')"
    "in_critical (snd (workers ?s' ! j)) \<and> in_critical (snd (workers ?s' ! j'))" for j j'
  proof -
    have "j = i"
    proof (rule ccontr)
      assume "j \<noteq> i"
      with that have "in_critical (snd (?ws ! j))" by simp
      with none[of j] that(1) show False by simp
    qed
    moreover have "j' = i"
    proof (rule ccontr)
      assume "j' \<noteq> i"
      with that have "in_critical (snd (?ws ! j'))" by simp
      with none[of j'] that(2) show False by simp
    qed
    ultimately show ?thesis by simp
  qed
  show "c = counts_get (hits ?s') (fst (workers ?s' ! j))"
    if "j < length (workers ?s')"
      "snd (workers ?s' ! j) = Loaded c \<or> snd (workers ?s' ! j) = Slept c" for j c
  proof (cases "j = i")
    case True
    then show ?thesis using that i by auto
  next
    case False
    then show ?thesis using that inv by (auto simp: bump_inv_def)
  qed
  show "counts_get (hits ?s') k' = counts_get c0 k'
      + length [w \<leftarrow> workers ?s'. fst w = k' \<and> has_stored (snd w)]" for k'
    using inv stored_count_same[OF i at, of Locked k'] by (simp add: bump_inv_def)
qed

lemma inv_release:
  assumes inv: "bump_inv c0 keys s" and i: "i < length (workers s)"
    and at: "workers s ! i = (k, Stored)"
  shows "bump_inv c0 keys (s\<lparr>lock_taken := False, workers := (workers s)[i := (k, Finished)]\<rparr>)"
  unfolding bump_inv_def
proof (intro conjI allI impI)
  let ?ws = "workers s"
  let ?s' = "s\<lparr>lock_taken := False, workers := (workers s)[i := (k, Finished)]\<rparr>"
  have only: "\<And>j. j < length ?ws \<Longrightarrow> in_critical (snd (?ws ! j)) \<Longrightarrow> j = i"
    using inv i at by (auto simp: bump_inv_def)
  have none: "\<not> in_critical (snd (workers ?s' ! j))" if "j < length (workers ?s')" for j
    using that only[of j] by (cases "j = i") auto
  show "map fst (workers ?s') = keys"
    using inv i at by (simp add: bump_inv_def map_fst_update)
  show "lock_taken ?s' \<longleftrightarrow> (\<exists>j < length (workers ?s'). in_critical (snd (workers ?s' ! j)))"
    using none by auto
  show "j = j'" if "j < length (workers ?s')" "j' < length (workers ?s')"
    "in_critical (snd (workers ?s' ! j)) \<and> in_critical (snd (workers ?s' ! j'))" for j j'
    using that(3) none[OF that(1)] by simp
  show "c = counts_get (hits ?s') (fst (workers ?s' ! j))"
    if "j < length (workers ?s')"
      "snd (workers ?s' ! j) = Loaded c \<or> snd (workers ?s' ! j) = Slept c" for j c
  proof (cases "j = i")
    case True
    then show ?thesis using that i by auto
  next
    case False
    then show ?thesis using that inv by (auto simp: bump_inv_def)
  qed
  show "counts_get (hits ?s') k' = counts_get c0 k'
      + length [w \<leftarrow> workers ?s'. fst w = k' \<and> has_stored (snd w)]" for k'
    using inv stored_count_same[OF i at, of Finished k'] by (simp add: bump_inv_def)
qed

lemma inv_store:
  assumes inv: "bump_inv c0 keys s" and i: "i < length (workers s)"
    and at: "workers s ! i = (k, Slept c)"
  shows "bump_inv c0 keys
           (s\<lparr>hits := (hits s)(k \<mapsto> c + 1), workers := (workers s)[i := (k, Stored)]\<rparr>)"
  unfolding bump_inv_def
proof (intro conjI allI impI)
  let ?ws = "workers s"
  let ?s' = "s\<lparr>hits := (hits s)(k \<mapsto> c + 1), workers := (workers s)[i := (k, Stored)]\<rparr>"
  have only: "\<And>j. j < length ?ws \<Longrightarrow> in_critical (snd (?ws ! j)) \<Longrightarrow> j = i"
    using inv i at by (auto simp: bump_inv_def)
  have cur: "c = counts_get (hits s) k"
    using inv i at by (auto simp: bump_inv_def)
  have lk: "lock_taken s"
    using inv i at by (auto simp: bump_inv_def)
  show "map fst (workers ?s') = keys"
    using inv i at by (simp add: bump_inv_def map_fst_update)
  show "lock_taken ?s' \<longleftrightarrow> (\<exists>j < length (workers ?s'). in_critical (snd (workers ?s' ! j)))"
    using lk i by (auto intro!: exI[of _ i])
  show "j = j'" if "j < length (workers ?s')" "j' < length (workers ?s')"
    "in_critical (snd (workers ?s' ! j)) \<and> in_critical (snd (workers ?s' ! j'))" for j j'
  proof -
    have "in_critical (snd (?ws ! j))" "in_critical (snd (?ws ! j'))"
      using that at i by (auto simp: nth_list_update split: if_splits)
    then show ?thesis
      using only that(1,2) by auto
  qed
  show "c' = counts_get (hits ?s') (fst (workers ?s' ! j))"
    if "j < length (workers ?s')"
      "snd (workers ?s' ! j) = Loaded c' \<or> snd (workers ?s' ! j) = Slept c'" for j c'
  proof (cases "j = i")
    case True
    then show ?thesis using that i by auto
  next
    case False
    with that have "in_critical (snd (?ws ! j))" "j < length ?ws"
      by auto
    with only False show ?thesis by blast
  qed
  show "counts_get (hits ?s') k' = counts_get c0 k'
      + length [w \<leftarrow> workers ?s'. fst w = k' \<and> has_stored (snd w)]" for k'
  proof -
    have "counts_get (hits s) k' = counts_get c0 k'
        + length [w \<leftarrow> ?ws. fst w = k' \<and> has_stored (snd w)]"
      using inv by (simp add: bump_inv_def)
    moreover have "counts_get (hits ?s') k' = counts_get (hits s) k' + (if k' = k then 1 else 0)"
      using cur by (simp add: counts_get_def)
    ultimately show ?thesis
      using stored_count_new[OF i at, of Stored k'] by simp
  qed
qed

lemma bump_step_inv:
  assumes "bump_inv c0 keys s"
  shows "bump_inv c0 keys (bump_step i s)"
proof (cases "i < length (workers s)")
  case False
  then show ?thesis using assms by (simp add: bump_step_def)
next
  case True
  obtain k pc where at: "workers s ! i = (k, pc)"
    by (cases "workers s ! i")
  show ?thesis
  proof (cases pc)
    case Start
    show ?thesis
    proof (cases "lock_taken s")
      case True
      with \<open>i < length (workers s)\<close> at Start have "bump_step i s = s"
        by (simp add: bump_step_def)
      with assms show ?thesis by simp
    next
      case False
      with \<open>i < length (workers s)\<close> at Start
      have "bump_step i s = s\<lparr>lock_taken := True, workers := (workers s)[i := (k, Locked)]\<rparr>"
        by (simp add: bump_step_def)
      moreover have "bump_inv c0 keys
          (s\<lparr>lock_taken := True, workers := (workers s)[i := (k, Locked)]\<rparr>)"
        using assms True at[unfolded Start] False by (rule inv_acquire)
      ultimately show ?thesis by simp
    qed
  next
    case Locked
    with True at
    have "bump_step i s
        = s\<lparr>workers := (workers s)[i := (k, Loaded (counts_get (hits s) k))]\<rparr>"
      by (simp add: bump_step_def)
    moreover have "bump_inv c0 keys
        (s\<lparr>workers := (workers s)[i := (k, Loaded (counts_get (hits s) k))]\<rparr>)"
      using assms True at by (rule inv_inner_step) (simp_all add: Locked)
    ultimately show ?thesis by simp
  next
    case (Loaded c)
    have cur: "c = counts_get (hits s) k"
      using assms True at Loaded by (auto simp: bump_inv_def)
    from Loaded True at
    have "bump_step i s = s\<lparr>workers := (workers s)[i := (k, Slept c)]\<rparr>"
      by (simp add: bump_step_def)
    moreover have "bump_inv c0 keys (s\<lparr>workers := (workers s)[i := (k, Slept c)]\<rparr>)"
      using assms True at by (rule inv_inner_step) (simp_all add: Loaded cur)
    ultimately show ?thesis by simp
  next
    case (Slept c)
    with True at
    have "bump_step i s
        = s\<lparr>hits := (hits s)(k \<mapsto> c + 1), workers := (workers s)[i := (k, Stored)]\<rparr>"
      by (simp add: bump_step_def)
    moreover have "bump_inv c0 keys
        (s\<lparr>hits := (hits s)(k \<mapsto> c + 1), workers := (workers s)[i := (k, Stored)]\<rparr>)"
      using assms True at[unfolded Slept] by (rule inv_store)
    ultimately show ?thesis by simp
  next
    case Stored
    with True at
    have "bump_step i s
        = s\<lparr>lock_taken := False, workers := (workers s)[i := (k, Finished)]\<rparr>"
      by (simp add: bump_step_def)
    moreover have "bump_inv c0 keys
        (s\<lparr>lock_taken := False, workers := (workers s)[i := (k, Finished)]\<rparr>)"
      using assms True at[unfolded Stored] by (rule inv_release)
    ultimately show ?thesis by simp
  next
    case Finished
    with True at have "bump_step i s = s"
      by (simp add: bump_step_def)
    with assms show ?thesis by simp
  qed
qed

lemma run_schedule_inv:
  "bump_inv c0 keys s \<Longrightarrow> bump_inv c0 keys (run_schedule sched s)"
  unfolding run_schedule_def
  by (induction sched arbitrary: s) (simp_all add: bump_step_inv)

lemma bump_step_monotone:
  assumes "bump_inv c0 keys s"
  shows "counts_get (hits s) k \<le> counts_get (hits (bump_step i s)) k"
proof (cases "i < length (workers s)")
  case False
  then show ?thesis by (simp add: bump_step_def)
next
  case True
  obtain k' pc where at: "workers s ! i = (k', pc)"
    by (cases "workers s ! i")
  show ?thesis
  proof (cases pc)
    case (Slept c)
    have "c = counts_get (hits s) k'"
      using assms True at Slept by (auto simp: bump_inv_def)
    then show ?thesis
      using True at Slept by (simp add: bump_step_def counts_get_def)
  qed (use True at in \<open>simp_all add: bump_step_def\<close>)
qed

lemma finished_count:
  assumes "bump_inv c0 keys s" and "all_finished s"
  shows "counts_get (hits s) k = counts_get c0 k + length (filter (\<lambda>x. x = k) keys)"
proof -
  have "[w \<leftarrow> workers s. fst w = k \<and> has_stored (snd w)] = [w \<leftarrow> workers s. fst w = k]"
    using assms(2) by (intro filter_cong) (auto simp: all_finished_def)
  moreover have "length [w \<leftarrow> workers s. fst w = k] = length (filter (\<lambda>x. x = k) (map fst (workers s)))"
    by (simp add: filter_map comp_def)
  moreover have "map fst (workers s) = keys"
    using assms(1) by (simp add: bump_inv_def)
  moreover have "counts_get (hits s) k
      = counts_get c0 k + length [w \<leftarrow> workers s. fst w = k \<and> has_stored (snd w)]"
    using assms(1) by (simp add: bump_inv_def)
  ultimately show ?thesis
    by (simp only:)
qed

lemma run_schedule_Cons: "run_schedule (i # tl_sched) s = run_schedule tl_sched (bump_step i s)"
  by (simp add: run_schedule_def)

lemma run_schedule_append:
  "run_schedule (sched @ tl_sched) s = run_schedule tl_sched (run_schedule sched s)"
  by (simp add: run_schedule_def)

lemma sum_steps_update:
  "i < length ws \<Longrightarrow>
   sum_list (map (\<lambda>w. steps_left (snd w)) (ws[i := (k, pc')])) + steps_left (snd (ws ! i))
     = sum_list (map (\<lambda>w. steps_left (snd w)) ws) + steps_left pc'"
proof (induction ws arbitrary: i)
  case Nil
  then show ?case by simp
next
  case (Cons w ws)
  then show ?case by (cases i) auto
qed

lemma enabled_step_works:
  assumes i: "i < length (workers s)" and at: "workers s ! i = (k, pc)"
    and nf: "pc \<noteq> Finished" and en: "pc = Start \<longrightarrow> \<not> lock_taken s"
  shows "Suc (work_left (bump_step i s)) = work_left s"
proof (cases pc)
  case Start
  with en i at show ?thesis
    using sum_steps_update[OF i, of k Locked] by (simp add: bump_step_def work_left_def)
next
  case Locked
  with i at show ?thesis
    using sum_steps_update[OF i, of k "Loaded (counts_get (hits s) k)"]
    by (simp add: bump_step_def work_left_def)
next
  case (Loaded c)
  with i at show ?thesis
    using sum_steps_update[OF i, of k "Slept c"] by (simp add: bump_step_def work_left_def)
next
  case (Slept c)
  with i at show ?thesis
    using sum_steps_update[OF i, of k Stored] by (simp add: bump_step_def work_left_def)
next
  case Stored
  with i at show ?thesis
    using sum_steps_update[OF i, of k Finished] by (simp add: bump_step_def work_left_def)
next
  case Finished
  with nf show ?thesis by simp
qed

lemma some_step_enabled:
  assumes inv: "bump_inv c0 keys s" and nf: "\<not> all_finished s"
  shows "\<exists>i. Suc (work_left (bump_step i s)) = work_left s"
proof (cases "lock_taken s")
  case True
  then obtain i where i: "i < length (workers s)" and c: "in_critical (snd (workers s ! i))"
    using inv by (auto simp: bump_inv_def)
  obtain k pc where at: "workers s ! i = (k, pc)"
    by (cases "workers s ! i")
  from c at have "pc \<noteq> Finished" "pc \<noteq> Start" by auto
  then have "Suc (work_left (bump_step i s)) = work_left s"
    using enabled_step_works[OF i at] by simp
  then show ?thesis ..
next
  case False
  from nf obtain w where w: "w \<in> set (workers s)" "snd w \<noteq> Finished"
    by (auto simp: all_finished_def)
  then obtain i where i: "i < length (workers s)" and wi: "workers s ! i = w"
    by (auto simp: in_set_conv_nth)
  obtain k pc where at: "workers s ! i = (k, pc)"
    by (cases "workers s ! i")
  have "pc \<noteq> Finished" using w(2) wi at by auto
  then have "Suc (work_left (bump_step i s)) = work_left s"
    using enabled_step_works[OF i at] False by simp
  then show ?thesis ..
qed

lemma finished_no_work: "all_finished s \<Longrightarrow> work_left s = 0"
  by (auto simp: all_finished_def work_left_def)

lemma can_finish:
  assumes "bump_inv c0 keys s"
  shows "\<exists>tl_sched. all_finished (run_schedule tl_sched s)"
  using assms
proof (induction "work_left s" arbitrary: s)
  case 0
  then have "\<forall>w \<in> set (workers s). steps_left (snd w) = 0"
    by (simp add: work_left_def)
  then have "all_finished s"
    unfolding all_finished_def
  proof (intro ballI)
    fix w assume "w \<in> set (workers s)" and a: "\<forall>w \<in> set (workers s). steps_left (snd w) = 0"
    then have "steps_left (snd w) = 0" by blast
    then show "snd w = Finished" by (cases "snd w") simp_all
  qed
  then have "all_finished (run_schedule [] s)"
    by (simp add: run_schedule_def)
  then show ?case ..
next
  case (Suc n)
  then have "\<not> all_finished s"
    using finished_no_work[of s] by auto
  from some_step_enabled[OF Suc.prems this]
  obtain i where i: "Suc (work_left (bump_step i s)) = work_left s" ..
  with Suc.hyps(2) have "n = work_left (bump_step i s)" by simp
  from Suc.hyps(1)[OF this bump_step_inv[OF Suc.prems]]
  obtain tl_sched where "all_finished (run_schedule tl_sched (bump_step i s))" ..
  then have "all_finished (run_schedule (i # tl_sched) s)"
    by (simp add: run_schedule_Cons)
  then show ?case ..
qed

text \<open>A worker running alone does what the sequential \<open>bump_count\<close> does.\<close>

lemma single_worker_is_bump_count:
  "hits (run_schedule [0, 0, 0, 0, 0] (bump_start c0 [path_key])) = bump_count path_key c0"
  by (simp add: run_schedule_def bump_start_def bump_step_def bump_count_def Let_def)

lemma counts_after_monotone:
  "counts_get (COUNTS st) k \<le> counts_get (counts_after E now data ip content_dir st) k"
proof (cases "admitted now ip st \<and> request_target E data \<noteq> None")
  case True
  then obtain target where "request_target E data = Some target" by auto
  with True show ?thesis
    by (simp add: counts_after_get bump_count_def counts_get_def Let_def)
next
  case False
  then show ?thesis
    by (simp add: counts_after_other)
qed

text \<open>
  Claim C9. In every interleaving of workers that run \<open>_bump_count\<close>, no statement of any
  worker lowers a count; when all workers have finished, the count of a path is its start
  value plus the number of workers for that path, so \<open>N\<close> workers for one path raise it by
  exactly \<open>N\<close>; every interleaving can be continued until all workers have finished; and
  a connection handled in full never lowers a count either, \<open>_bump_count\<close> being the only
  writer of \<open>COUNTS\<close>.
\<close>

theorem C9_hit_counts_never_lost:
  "counts_get (hits (run_schedule sched (bump_start c0 keys))) k
     \<le> counts_get (hits (bump_step i (run_schedule sched (bump_start c0 keys)))) k
   \<and> (all_finished (run_schedule sched (bump_start c0 keys)) \<longrightarrow>
        counts_get (hits (run_schedule sched (bump_start c0 keys))) k
          = counts_get c0 k + length (filter (\<lambda>x. x = k) keys))
   \<and> (all_finished (run_schedule sched (bump_start c0 (replicate N k))) \<longrightarrow>
        counts_get (hits (run_schedule sched (bump_start c0 (replicate N k)))) k
          = counts_get c0 k + N)
   \<and> (\<exists>rest. all_finished (run_schedule (sched @ rest) (bump_start c0 keys)))
   \<and> counts_get (COUNTS st) k \<le> counts_get (counts_after E now data ip content_dir st) k"
proof (intro conjI impI)
  have inv: "bump_inv c0 ks (run_schedule sched (bump_start c0 ks))" for ks
    by (intro run_schedule_inv bump_inv_start)
  show "counts_get (hits (run_schedule sched (bump_start c0 keys))) k
     \<le> counts_get (hits (bump_step i (run_schedule sched (bump_start c0 keys)))) k"
    using inv by (rule bump_step_monotone)
  show "counts_get (hits (run_schedule sched (bump_start c0 keys))) k
          = counts_get c0 k + length (filter (\<lambda>x. x = k) keys)"
    if "all_finished (run_schedule sched (bump_start c0 keys))"
    using inv that by (rule finished_count)
  show "counts_get (hits (run_schedule sched (bump_start c0 (replicate N k)))) k
          = counts_get c0 k + N"
    if "all_finished (run_schedule sched (bump_start c0 (replicate N k)))"
    using finished_count[OF inv that, of k] by simp
  show "\<exists>rest. all_finished (run_schedule (sched @ rest) (bump_start c0 keys))"
    using can_finish[OF inv[of keys]] by (simp add: run_schedule_append)
  show "counts_get (COUNTS st) k \<le> counts_get (counts_after E now data ip content_dir st) k"
    by (rule counts_after_monotone)
qed

lemma demo_schedule_run:
  "run_schedule demo_schedule (bump_start Map.empty [u ''/docs/'', u ''/docs/''])
     = \<lparr>hits = [u ''/docs/'' \<mapsto> 2], lock_taken = False,
        workers = [(u ''/docs/'', Finished), (u ''/docs/'', Finished)]\<rparr>"
  by (simp add: demo_schedule_def run_schedule_def bump_start_def bump_step_def counts_get_def
      numeral_2_eq_2)

theorem C9_witness:
  "all_finished (run_schedule demo_schedule (bump_start Map.empty (replicate 2 (u ''/docs/''))))
   \<and> counts_get (hits (run_schedule demo_schedule
                          (bump_start Map.empty (replicate 2 (u ''/docs/''))))) (u ''/docs/'')
       = 2
   \<and> counts_get (hits (run_schedule [0, 1, 0, 0] (bump_start Map.empty [u ''/a'', u ''/a''])))
        (u ''/a'') = 0
   \<and> counts_get (hits (bump_step 0 (run_schedule [0, 1, 0, 0]
                                      (bump_start Map.empty [u ''/a'', u ''/a''])))) (u ''/a'') = 1"
proof -
  have r: "replicate 2 (u ''/docs/'') = [u ''/docs/'', u ''/docs/'']"
    by (simp add: numeral_2_eq_2)
  have f: "all_finished (run_schedule demo_schedule
      (bump_start Map.empty (replicate 2 (u ''/docs/''))))"
    unfolding r demo_schedule_run by (simp add: all_finished_def)
  have z: "counts_get Map.empty (u ''/docs/'') = 0"
    by (simp add: counts_get_def)
  have a: "counts_get (hits (run_schedule [0, 1, 0, 0] (bump_start Map.empty [u ''/a'', u ''/a''])))
        (u ''/a'') = 0"
    "counts_get (hits (bump_step 0 (run_schedule [0, 1, 0, 0]
                                      (bump_start Map.empty [u ''/a'', u ''/a''])))) (u ''/a'') = 1"
    by (simp_all add: run_schedule_def bump_start_def bump_step_def counts_get_def)
  show ?thesis
    using C9_hit_counts_never_lost[of demo_schedule Map.empty "replicate 2 (u ''/docs/'')"
        "u ''/docs/''" 0 2 fresh_state demo_env 0 "''GET / HTTP/1.1''" demo_ip demo_root]
      f z a
    by simp
qed

end
